theory Spec2Isabelle
  imports Main
begin

section \<open>The signaling server of src/server.ts\<close>

text \<open>
  The server keeps three module-level tables (\<open>rooms\<close>, \<open>userIdToSocketIdMap\<close>,
  \<open>socketIdToUserIdMap\<close>) and registers three handlers on every connected socket:
  \<open>join-room\<close>, \<open>signal\<close> and \<open>disconnect\<close>. Each handler is modelled as a function
  from the tables to the new tables and the list of calls it makes on the transport
  (socket.io), in the order the handler makes them. Logging is left out.
\<close>

subsection \<open>Identifiers, payloads and transport calls\<close>

type_synonym socket_id = string
type_synonym user_id = string
type_synonym room_id = string

datatype signal_type = Offer | Answer | Candidate

text \<open>
  The payload of a \<open>signal\<close> event. \<open>sdp\<close> and \<open>candidate\<close> are opaque to the server;
  an optional field is \<open>None\<close> when absent, and \<open>candidate\<close> may also be present and null.
\<close>

record payload =
  type :: signal_type
  sdp :: "string option"
  candidate :: "string option option"
  senderUserId :: user_id
  targetUserId :: user_id
  roomId :: room_id

datatype message =
  Existing_users "user_id list"
| User_joined user_id
| User_left user_id
| Signal payload

text \<open>
  How an emit is addressed: \<open>socket.emit\<close> (\<open>Socket s\<close>), \<open>socket.to(room).emit\<close>
  (\<open>Socket_to room s\<close>, the room without the socket \<open>s\<close> itself) and \<open>io.to(room).emit\<close>
  (\<open>Io_to room\<close>).
\<close>

datatype target =
  Socket socket_id
| Socket_to room_id socket_id
| Io_to room_id

datatype call =
  Join socket_id room_id
| Emit target message

text \<open>
  Who receives an emit, given the sockets that the transport holds in each of its rooms at
  that moment. The transport is not part of the repository, so its room table is a
  parameter.
\<close>

fun recipients :: "(room_id \<Rightarrow> socket_id set) \<Rightarrow> target \<Rightarrow> socket_id set" where
  "recipients in_room (Socket s) = {s}"
| "recipients in_room (Socket_to r s) = in_room r - {s}"
| "recipients in_room (Io_to r) = in_room r"

subsection \<open>JavaScript \<open>Map\<close> and \<open>Set\<close>, in insertion order\<close>

text \<open>
  A \<open>Map\<close> is an association list in insertion order: \<open>set\<close> on a present key replaces the
  value in place, on an absent key it appends. A \<open>Set\<close> is a list in insertion order:
  \<open>add\<close> of a present element changes nothing.
\<close>

fun Map_get :: "('k \<times> 'v) list \<Rightarrow> 'k \<Rightarrow> 'v option" where
  "Map_get [] k = None"
| "Map_get ((k', v) # m) k = (if k' = k then Some v else Map_get m k)"

definition Map_has :: "('k \<times> 'v) list \<Rightarrow> 'k \<Rightarrow> bool" where
  "Map_has m k = (Map_get m k \<noteq> None)"

fun Map_set :: "('k \<times> 'v) list \<Rightarrow> 'k \<Rightarrow> 'v \<Rightarrow> ('k \<times> 'v) list" where
  "Map_set [] k v = [(k, v)]"
| "Map_set ((k', v') # m) k v = (if k' = k then (k, v) # m else (k', v') # Map_set m k v)"

definition Set_has :: "'a list \<Rightarrow> 'a \<Rightarrow> bool" where
  "Set_has xs x = (x \<in> set xs)"

definition Set_add :: "'a list \<Rightarrow> 'a \<Rightarrow> 'a list" where
  "Set_add xs x = (if Set_has xs x then xs else xs @ [x])"

definition Set_delete :: "'a list \<Rightarrow> 'a \<Rightarrow> 'a list" where
  "Set_delete xs x = removeAll x xs"

text \<open>
  The conditions \<open>if (targetSocketId)\<close> and \<open>if (disconnectedUserId)\<close> test a value of
  type \<open>string | undefined\<close> for truthiness: \<open>undefined\<close> and the empty string are falsy.
\<close>

definition truthy :: "string option \<Rightarrow> bool" where
  "truthy v = (case v of None \<Rightarrow> False | Some s \<Rightarrow> s \<noteq> [])"

subsection \<open>The state\<close>

text \<open>
  \<open>sockets\<close> is the transport's set of open connections: a socket is in it from its
  \<open>connection\<close> callback until its \<open>disconnect\<close>. No handler writes it.
\<close>

record state =
  rooms :: "(room_id \<times> user_id list) list"
  userIdToSocketIdMap :: "user_id \<rightharpoonup> socket_id"
  socketIdToUserIdMap :: "socket_id \<rightharpoonup> user_id"
  sockets :: "socket_id set"

definition init :: state where
  "init = \<lparr>rooms = [], userIdToSocketIdMap = Map.empty, socketIdToUserIdMap = Map.empty,
           sockets = {}\<rparr>"

subsection \<open>The handlers\<close>

text \<open>
  \<open>join-room\<close> (lines 51 to 73). \<open>rooms.get(roomId)!\<close> is never undefined there, the key
  having just been set when it was absent (lemma \<open>Map_get_Map_set\<close>); the model reads an
  absent key as the empty set. \<open>roomUsersSet.add\<close> changes the set that the map holds;
  the model stores the new set under the same key. The handler's parameter \<open>roomId\<close> is written \<open>room\<close>, the
  name \<open>roomId\<close> being the payload's field.
\<close>

definition join_room :: "socket_id \<Rightarrow> room_id \<Rightarrow> user_id \<Rightarrow> state \<Rightarrow> state \<times> call list" where
  "join_room socket room userId st =
    (let u2s = (userIdToSocketIdMap st)(userId \<mapsto> socket);
         s2u = (socketIdToUserIdMap st)(socket \<mapsto> userId);
         rooms1 = (if \<not> Map_has (rooms st) room then Map_set (rooms st) room []
                   else rooms st);
         roomUsersSet = Set_add (case Map_get rooms1 room of None \<Rightarrow> [] | Some us \<Rightarrow> us) userId;
         rooms2 = Map_set rooms1 room roomUsersSet;
         usersInThisRoom = roomUsersSet;
         otherUserIdsInRoom = filter (\<lambda>id. id \<noteq> userId) usersInThisRoom
     in (st\<lparr>rooms := rooms2, userIdToSocketIdMap := u2s, socketIdToUserIdMap := s2u\<rparr>,
         [Join socket room,
          Emit (Socket socket) (Existing_users otherUserIdsInRoom),
          Emit (Socket_to room socket) (User_joined userId)]))"

text \<open>\<open>signal\<close> (lines 75 to 95).\<close>

definition signal :: "socket_id \<Rightarrow> payload \<Rightarrow> state \<Rightarrow> state \<times> call list" where
  "signal socket p st =
    (let targetSocketId = userIdToSocketIdMap st (targetUserId p)
     in if truthy targetSocketId
        then (case targetSocketId of
                Some t \<Rightarrow> (st, [Emit (Io_to t) (Signal p)])
              | None \<Rightarrow> (st, []))
        else (st, []))"

text \<open>
  The \<open>rooms.forEach\<close> of the disconnect handler (lines 107 to 121). The callback visits
  the entries in insertion order; it changes the visited entry's set in place and deletes
  only the visited entry, so the walk is a recursion over the entries that keeps, changes
  or drops each one.
\<close>

fun leave_rooms :: "user_id \<Rightarrow> socket_id \<Rightarrow> (room_id \<times> user_id list) list
    \<Rightarrow> (room_id \<times> user_id list) list \<times> call list" where
  "leave_rooms u socket [] = ([], [])"
| "leave_rooms u socket ((r, usersSet) # rest) =
    (let (rest', calls) = leave_rooms u socket rest
     in if Set_has usersSet u
        then (let usersSet' = Set_delete usersSet u;
                  c = Emit (Socket_to r socket) (User_left u)
              in if length usersSet' = 0 then (rest', c # calls)
                 else ((r, usersSet') # rest', c # calls))
        else ((r, usersSet) # rest', calls))"

text \<open>\<open>disconnect\<close> (lines 97 to 125).\<close>

definition disconnect :: "socket_id \<Rightarrow> state \<Rightarrow> state \<times> call list" where
  "disconnect socket st =
    (let disconnectedUserId = socketIdToUserIdMap st socket
     in if truthy disconnectedUserId
        then (case disconnectedUserId of
                Some u \<Rightarrow>
                  (let u2s = (userIdToSocketIdMap st)(u := None);
                       s2u = (socketIdToUserIdMap st)(socket := None);
                       (rooms', calls) = leave_rooms u socket (rooms st)
                   in (st\<lparr>rooms := rooms', userIdToSocketIdMap := u2s,
                          socketIdToUserIdMap := s2u\<rparr>, calls))
              | None \<Rightarrow> (st, []))
        else (st, []))"

subsection \<open>Events\<close>

text \<open>
  The transport gives every connection a fresh, non-empty id, runs the \<open>connection\<close>
  callback once for it, and dispatches \<open>join-room\<close>, \<open>signal\<close> and \<open>disconnect\<close> only
  for a socket that is open; the socket is closed when its \<open>disconnect\<close> handler runs.
  An event that the transport cannot produce changes nothing.
\<close>

datatype event =
  Connect socket_id
| Join_room socket_id room_id user_id
| Signal_event socket_id payload
| Disconnect socket_id

fun step :: "event \<Rightarrow> state \<Rightarrow> state \<times> call list" where
  "step (Connect s) st =
    (if s \<noteq> [] \<and> s \<notin> sockets st then (st\<lparr>sockets := insert s (sockets st)\<rparr>, [])
     else (st, []))"
| "step (Join_room s r u) st = (if s \<in> sockets st then join_room s r u st else (st, []))"
| "step (Signal_event s p) st = (if s \<in> sockets st then signal s p st else (st, []))"
| "step (Disconnect s) st =
    (if s \<in> sockets st then disconnect s (st\<lparr>sockets := sockets st - {s}\<rparr>)
     else (st, []))"

definition state_after :: "event list \<Rightarrow> state" where
  "state_after evs = foldl (\<lambda>st e. fst (step e st)) init evs"

subsection \<open>The transport's rooms\<close>






subsection \<open>Properties of a state\<close>

text \<open>The members of a room: the set stored for it, or none when the room is absent.\<close>

definition members :: "state \<Rightarrow> room_id \<Rightarrow> user_id list" where
  "members st r = (case Map_get (rooms st) r of None \<Rightarrow> [] | Some us \<Rightarrow> us)"

text \<open>Every room in the directory has at least one member.\<close>

definition no_empty_rooms :: "state \<Rightarrow> bool" where
  "no_empty_rooms st = (\<forall>(r, us) \<in> set (rooms st). us \<noteq> [])"

text \<open>
  The two directions of the registry agree: a user is bound to a handle exactly when the
  handle is bound back to that user.
\<close>

definition registry_agrees :: "state \<Rightarrow> bool" where
  "registry_agrees st =
     (\<forall>u h. (userIdToSocketIdMap st u = Some h) = (socketIdToUserIdMap st h = Some u))"

text \<open>Every member of every room is bound, in the forward map, to an open connection.\<close>

definition members_live :: "state \<Rightarrow> bool" where
  "members_live st =
     (\<forall>(r, us) \<in> set (rooms st). \<forall>u \<in> set us.
        \<exists>h. userIdToSocketIdMap st u = Some h \<and> h \<in> sockets st)"

text \<open>
  A client discipline on an event: a \<open>join-room\<close> of socket \<open>s\<close> gives the user id
  \<open>ident s\<close>, so that a connection keeps one identity for all its joins.
\<close>

definition joins_as :: "(socket_id \<Rightarrow> user_id) \<Rightarrow> event \<Rightarrow> bool" where
  "joins_as ident e = (case e of Join_room s r u \<Rightarrow> u = ident s | _ \<Rightarrow> True)"

text \<open>
  Invariants of the runs in which every connection keeps one identity: each member of a
  room is bound to an open connection that is bound back to it, and every reverse entry
  holds the identity of its connection.
\<close>

definition members_owned :: "state \<Rightarrow> bool" where
  "members_owned st =
     (\<forall>(r, us) \<in> set (rooms st). \<forall>u \<in> set us.
        \<exists>h. userIdToSocketIdMap st u = Some h \<and> h \<in> sockets st
          \<and> socketIdToUserIdMap st h = Some u)"

definition identified :: "(socket_id \<Rightarrow> user_id) \<Rightarrow> state \<Rightarrow> bool" where
  "identified ident st = (\<forall>h u. socketIdToUserIdMap st h = Some u \<longrightarrow> u = ident h)"

text \<open>
  A client discipline that depends on the state: a \<open>join-room\<close> of socket \<open>s\<close> as user
  \<open>u\<close> is fair when \<open>s\<close> is bound to no other user and \<open>u\<close> to no other socket at that
  moment. A run is fair when each of its events is fair in the state it arrives in. A user
  id may be used again once the connection that held it has disconnected.
\<close>

definition fair_join :: "socket_id \<Rightarrow> user_id \<Rightarrow> state \<Rightarrow> bool" where
  "fair_join s u st =
     ((socketIdToUserIdMap st s = None \<or> socketIdToUserIdMap st s = Some u) \<and>
      (userIdToSocketIdMap st u = None \<or> userIdToSocketIdMap st u = Some s))"

fun fair :: "event \<Rightarrow> state \<Rightarrow> bool" where
  "fair (Join_room s r u) st = (s \<notin> sockets st \<or> fair_join s u st)"
| "fair e st = True"

fun fair_from :: "state \<Rightarrow> event list \<Rightarrow> bool" where
  "fair_from st [] = True"
| "fair_from st (e # es) = (fair e st \<and> fair_from (fst (step e st)) es)"

definition fair_run :: "event list \<Rightarrow> bool" where
  "fair_run evs = fair_from init evs"

section \<open>Lemmas about the tables and the handlers\<close>

subsection \<open>The tables\<close>

lemma Map_get_Map_set: "Map_get (Map_set m k v) k' = (if k' = k then Some v else Map_get m k')"
  by (induction m) auto

lemma Map_set_twice: "Map_set (Map_set m k v) k v' = Map_set m k v'"
  by (induction m) auto

lemma set_Map_set: "set (Map_set m k v) \<subseteq> insert (k, v) (set m)"
  by (induction m) (auto split: if_splits)

lemma keys_Map_set: "map fst (Map_set m k v) = (if k \<in> fst ` set m then map fst m else map fst m @ [k])"
  by (induction m) (auto split: if_splits simp: rev_image_eqI)

lemma Map_get_None: "(Map_get m k = None) = (k \<notin> fst ` set m)"
  by (induction m) (auto split: if_splits simp: rev_image_eqI)

lemma Map_get_in: "Map_get m k = Some v \<Longrightarrow> (k, v) \<in> set m"
  by (induction m) (auto split: if_splits)

subsection \<open>The handlers\<close>

lemma fst_leave_rooms:
  "fst (leave_rooms u s m) =
     map (\<lambda>(r, us). (r, removeAll u us)) (filter (\<lambda>(r, us). u \<notin> set us \<or> removeAll u us \<noteq> []) m)"
  by (induction u s m rule: leave_rooms.induct)
     (simp_all add: Set_has_def Set_delete_def Let_def split_def)

lemma snd_leave_rooms:
  "snd (leave_rooms u s m) =
     map (\<lambda>(r, us). Emit (Socket_to r s) (User_left u)) (filter (\<lambda>(r, us). u \<in> set us) m)"
  by (induction u s m rule: leave_rooms.induct)
     (simp_all add: Set_has_def Set_delete_def Let_def split_def)

lemma state_after_Nil: "state_after [] = init"
  by (simp add: state_after_def)

lemma state_after_snoc: "state_after (evs @ [e]) = fst (step e (state_after evs))"
  by (simp add: state_after_def)

lemma state_after_induct:
  assumes "P init" and "\<And>st e. P st \<Longrightarrow> P (fst (step e st))"
  shows "P (state_after evs)"
  using assms by (induction evs rule: rev_induct) (simp_all add: state_after_Nil state_after_snoc)

lemma rooms_join_room:
  "rooms (fst (join_room s r u st)) = Map_set (rooms st) r (Set_add (members st r) u)"
  by (simp add: join_room_def Let_def Map_has_def members_def Map_get_Map_set Map_set_twice)

lemma u2s_join_room:
  "userIdToSocketIdMap (fst (join_room s r u st)) = (userIdToSocketIdMap st)(u \<mapsto> s)"
  by (simp add: join_room_def Let_def)

lemma s2u_join_room:
  "socketIdToUserIdMap (fst (join_room s r u st)) = (socketIdToUserIdMap st)(s \<mapsto> u)"
  by (simp add: join_room_def Let_def)

lemma sockets_join_room: "sockets (fst (join_room s r u st)) = sockets st"
  by (simp add: join_room_def Let_def)

lemma disconnect_skip:
  "\<not> truthy (socketIdToUserIdMap st s) \<Longrightarrow> disconnect s st = (st, [])"
  by (simp add: disconnect_def)

lemma disconnect_cleanup:
  assumes "socketIdToUserIdMap st s = Some u" and "u \<noteq> []"
  shows "disconnect s st =
    (st\<lparr>rooms := fst (leave_rooms u s (rooms st)),
        userIdToSocketIdMap := (userIdToSocketIdMap st)(u := None),
        socketIdToUserIdMap := (socketIdToUserIdMap st)(s := None)\<rparr>,
     snd (leave_rooms u s (rooms st)))"
  using assms by (simp add: disconnect_def truthy_def split_def Let_def)

lemma disconnect_cases:
  obtains (skip) "disconnect s st = (st, [])"
  | (cleanup) u where "socketIdToUserIdMap st s = Some u" "u \<noteq> []"
      "disconnect s st =
        (st\<lparr>rooms := fst (leave_rooms u s (rooms st)),
            userIdToSocketIdMap := (userIdToSocketIdMap st)(u := None),
            socketIdToUserIdMap := (socketIdToUserIdMap st)(s := None)\<rparr>,
         snd (leave_rooms u s (rooms st)))"
proof (cases "truthy (socketIdToUserIdMap st s)")
  case False
  then show ?thesis using skip disconnect_skip by blast
next
  case True
  then obtain u where "socketIdToUserIdMap st s = Some u" "u \<noteq> []"
    by (auto simp: truthy_def split: option.splits)
  then show ?thesis using cleanup disconnect_cleanup by blast
qed

subsection \<open>Rooms are never empty\<close>

lemma Set_add_nonempty: "Set_add xs x \<noteq> []"
  by (simp add: Set_add_def Set_has_def) auto

lemma no_empty_join_room:
  "no_empty_rooms st \<Longrightarrow> no_empty_rooms (fst (join_room s r u st))"
  using set_Map_set [of "rooms st" r "Set_add (members st r) u"]
    Set_add_nonempty [of "members st r" u]
  by (fastforce simp: no_empty_rooms_def rooms_join_room)

lemma no_empty_leave_rooms:
  "\<forall>(r, us) \<in> set m. us \<noteq> [] \<Longrightarrow> \<forall>(r, us) \<in> set (fst (leave_rooms u s m)). us \<noteq> []"
  by (auto simp: fst_leave_rooms)

lemma no_empty_disconnect:
  "no_empty_rooms st \<Longrightarrow> no_empty_rooms (fst (disconnect s st))"
  by (cases s st rule: disconnect_cases) (simp_all add: no_empty_rooms_def no_empty_leave_rooms)

lemma fst_signal: "fst (signal s p st) = st"
  by (simp add: signal_def Let_def split: option.splits)

lemma no_empty_step:
  assumes "no_empty_rooms st"
  shows "no_empty_rooms (fst (step e st))"
proof (cases e)
  case (Connect s)
  then show ?thesis using assms by (simp add: no_empty_rooms_def)
next
  case (Join_room s r u)
  then show ?thesis using assms by (simp add: no_empty_join_room)
next
  case (Signal_event s p)
  then show ?thesis using assms by (simp add: fst_signal)
next
  case (Disconnect s)
  have "no_empty_rooms (st\<lparr>sockets := sockets st - {s}\<rparr>)"
    using assms by (simp add: no_empty_rooms_def)
  then show ?thesis using Disconnect assms by (simp add: no_empty_disconnect)
qed

subsection \<open>The join and signal handlers in closed form\<close>

lemma join_room_eq:
  "join_room s r u st =
    (st\<lparr>rooms := Map_set (rooms st) r (Set_add (members st r) u),
        userIdToSocketIdMap := (userIdToSocketIdMap st)(u \<mapsto> s),
        socketIdToUserIdMap := (socketIdToUserIdMap st)(s \<mapsto> u)\<rparr>,
     [Join s r,
      Emit (Socket s) (Existing_users (filter (\<lambda>id. id \<noteq> u) (Set_add (members st r) u))),
      Emit (Socket_to r s) (User_joined u)])"
  by (simp add: join_room_def Let_def Map_has_def members_def Map_get_Map_set Map_set_twice)

lemma members_join_room:
  "members (fst (join_room s r u st)) r' =
     (if r' = r then Set_add (members st r) u else members st r')"
  by (simp add: members_def rooms_join_room Map_get_Map_set)

lemma Set_add_again: "Set_add (Set_add xs x) x = Set_add xs x"
  by (simp add: Set_add_def Set_has_def)

lemma set_Set_add: "set (Set_add xs x) = insert x (set xs)"
  by (auto simp: Set_add_def Set_has_def)

lemma filter_Set_add: "filter (\<lambda>id. id \<noteq> x) (Set_add xs x) = filter (\<lambda>id. id \<noteq> x) xs"
  by (simp add: Set_add_def Set_has_def)

lemma signal_resolved:
  "userIdToSocketIdMap st (targetUserId p) = Some h \<Longrightarrow> h \<noteq> [] \<Longrightarrow>
   signal s p st = (st, [Emit (Io_to h) (Signal p)])"
  by (simp add: signal_def truthy_def)

subsection \<open>Handles are never empty\<close>



subsection \<open>Room ids are distinct; the effect of the disconnect loop on each room\<close>

lemma keys_leave_rooms:
  "map fst (fst (leave_rooms u s m)) =
     map fst (filter (\<lambda>(r, us). u \<notin> set us \<or> removeAll u us \<noteq> []) m)"
  by (simp add: fst_leave_rooms split_def comp_def)

lemma distinct_keys_step:
  assumes "distinct (map fst (rooms st))"
  shows "distinct (map fst (rooms (fst (step e st))))"
proof (cases e)
  case (Connect s)
  then show ?thesis using assms by simp
next
  case (Join_room s r u)
  then show ?thesis using assms by (simp add: rooms_join_room keys_Map_set)
next
  case (Signal_event s p)
  then show ?thesis using assms by (simp add: fst_signal)
next
  case (Disconnect s)
  then show ?thesis using assms
    by (cases s "st\<lparr>sockets := sockets st - {s}\<rparr>" rule: disconnect_cases)
       (auto simp: keys_leave_rooms distinct_map_filter)
qed

lemma distinct_keys: "distinct (map fst (rooms (state_after evs)))"
proof (rule state_after_induct)
  show "distinct (map fst (rooms init))" by (simp add: init_def)
qed (rule distinct_keys_step)

lemma Map_get_leave_rooms:
  "distinct (map fst m) \<Longrightarrow>
   Map_get (fst (leave_rooms u s m)) r =
     (case Map_get m r of None \<Rightarrow> None
      | Some us \<Rightarrow> if u \<in> set us \<and> removeAll u us = [] then None else Some (removeAll u us))"
proof (induction m)
  case Nil
  then show ?case by simp
next
  case (Cons a m)
  obtain r' us where a: "a = (r', us)" by (cases a)
  have absent: "r' \<notin> fst ` set m" using Cons.prems a by simp
  have "Map_get (fst (leave_rooms u s m)) r' = None"
    using absent by (force simp: Map_get_None fst_leave_rooms)
  then show ?case using Cons a
    by (auto simp: Set_has_def Set_delete_def Let_def split_def)
qed

lemma members_leave_rooms:
  assumes "distinct (map fst (rooms st))"
  shows "members (st\<lparr>rooms := fst (leave_rooms u s (rooms st)), userIdToSocketIdMap := f,
                     socketIdToUserIdMap := g\<rparr>) r = removeAll u (members st r)"
  using assms by (simp add: members_def Map_get_leave_rooms split: option.splits)

lemma calls_leave_rooms:
  "distinct (map fst m) \<Longrightarrow>
   snd (leave_rooms u s m) =
     map (\<lambda>r. Emit (Socket_to r s) (User_left u))
       (filter (\<lambda>r. u \<in> set (case Map_get m r of None \<Rightarrow> [] | Some us \<Rightarrow> us)) (map fst m))"
proof (induction m)
  case Nil
  then show ?case by simp
next
  case (Cons a m)
  obtain r' us where a: "a = (r', us)" by (cases a)
  have absent: "r' \<notin> fst ` set m" using Cons.prems a by simp
  have same: "filter (\<lambda>r. u \<in> set (case (if r' = r then Some us else Map_get m r) of None \<Rightarrow> [] | Some us \<Rightarrow> us)) (map fst m)
      = filter (\<lambda>r. u \<in> set (case Map_get m r of None \<Rightarrow> [] | Some us \<Rightarrow> us)) (map fst m)"
    using absent by (intro filter_cong) auto
  show ?case using Cons a same
    by (simp add: Set_has_def Set_delete_def Let_def split_def)
qed

subsection \<open>Registry agreement in fair runs\<close>

lemma agrees_join_room:
  assumes "registry_agrees st" and "fair_join s u st"
  shows "registry_agrees (fst (join_room s r u st))"
  unfolding registry_agrees_def u2s_join_room s2u_join_room
proof (intro allI)
  fix w h
  show "(((userIdToSocketIdMap st)(u \<mapsto> s)) w = Some h) =
        (((socketIdToUserIdMap st)(s \<mapsto> u)) h = Some w)"
  proof (cases "w = u"; cases "h = s")
    assume "w = u" "h \<noteq> s"
    then show ?thesis using assms unfolding registry_agrees_def fair_join_def
      by simp (metis option.distinct(1) option.inject)
  next
    assume "w \<noteq> u" "h = s"
    then show ?thesis using assms unfolding registry_agrees_def fair_join_def
      by simp (metis option.distinct(1) option.inject)
  next
    assume "w \<noteq> u" "h \<noteq> s"
    then show ?thesis using assms(1) by (simp add: registry_agrees_def)
  qed simp
qed

lemma agrees_disconnect:
  assumes "registry_agrees st"
  shows "registry_agrees (fst (disconnect s st))"
proof (cases s st rule: disconnect_cases)
  case skip
  then show ?thesis using assms by simp
next
  case (cleanup u)
  then show ?thesis using assms
    by (auto simp: registry_agrees_def) (metis option.inject)+
qed

lemma agrees_step:
  assumes "registry_agrees st" and "fair e st"
  shows "registry_agrees (fst (step e st))"
proof (cases e)
  case (Connect s)
  then show ?thesis using assms(1) by (simp add: registry_agrees_def)
next
  case (Join_room s r u)
  then show ?thesis using assms by (auto simp: agrees_join_room)
next
  case (Signal_event s p)
  then show ?thesis using assms(1) by (simp add: fst_signal)
next
  case (Disconnect s)
  have "registry_agrees (st\<lparr>sockets := sockets st - {s}\<rparr>)"
    using assms(1) by (simp add: registry_agrees_def)
  then show ?thesis using Disconnect assms(1) by (simp add: agrees_disconnect)
qed

lemma agrees_fair_from:
  "registry_agrees st \<Longrightarrow> fair_from st evs \<Longrightarrow>
   registry_agrees (foldl (\<lambda>st e. fst (step e st)) st evs)"
  by (induction evs arbitrary: st) (simp_all add: agrees_step)

lemma unfair_join_disagrees:
  assumes "registry_agrees st" and "\<not> fair_join s u st"
  shows "\<not> registry_agrees (fst (join_room s r u st))"
proof
  assume after: "registry_agrees (fst (join_room s r u st))"
  from assms(2) consider
    (handle) v where "socketIdToUserIdMap st s = Some v" "v \<noteq> u"
  | (user) h where "userIdToSocketIdMap st u = Some h" "h \<noteq> s"
    by (auto simp: fair_join_def)
  then show False
  proof cases
    case handle
    then have "userIdToSocketIdMap st v = Some s" using assms(1) by (simp add: registry_agrees_def)
    then have "userIdToSocketIdMap (fst (join_room s r u st)) v = Some s"
      using handle(2) by (simp add: u2s_join_room)
    then have "socketIdToUserIdMap (fst (join_room s r u st)) s = Some v"
      using after by (simp add: registry_agrees_def)
    then show False using handle(2) by (simp add: s2u_join_room)
  next
    case user
    then have "socketIdToUserIdMap st h = Some u" using assms(1) by (simp add: registry_agrees_def)
    then have "socketIdToUserIdMap (fst (join_room s r u st)) h = Some u"
      using user(2) by (simp add: s2u_join_room)
    then have "userIdToSocketIdMap (fst (join_room s r u st)) u = Some h"
      using after by (simp add: registry_agrees_def)
    then show False using user(2) by (simp add: u2s_join_room)
  qed
qed

subsection \<open>The transport room of a socket\<close>








subsection \<open>Runs in which every connection keeps one identity\<close>

lemma in_members: "x \<in> set (members st r) \<Longrightarrow> \<exists>us. (r, us) \<in> set (rooms st) \<and> x \<in> set us"
  by (cases "Map_get (rooms st) r") (auto simp: members_def dest: Map_get_in)

lemma members_ownedI:
  assumes "\<And>r us u. (r, us) \<in> set (rooms st) \<Longrightarrow> u \<in> set us \<Longrightarrow>
     \<exists>h. userIdToSocketIdMap st u = Some h \<and> h \<in> sockets st \<and> socketIdToUserIdMap st h = Some u"
  shows "members_owned st"
  unfolding members_owned_def using assms by blast

lemma members_ownedD:
  assumes "members_owned st" and "(r, us) \<in> set (rooms st)" and "u \<in> set us"
  obtains h where "userIdToSocketIdMap st u = Some h" and "h \<in> sockets st"
    and "socketIdToUserIdMap st h = Some u"
  using assms unfolding members_owned_def by blast

lemma owned_join_room:
  assumes "members_owned st" and "identified ident st" and "s \<in> sockets st" and "u = ident s"
  shows "members_owned (fst (join_room s r u st))"
proof (rule members_ownedI)
  let ?st' = "fst (join_room s r u st)"
  fix r' us w
  assume entry: "(r', us) \<in> set (rooms ?st')" and w: "w \<in> set us"
  show "\<exists>h. userIdToSocketIdMap ?st' w = Some h \<and> h \<in> sockets ?st'
          \<and> socketIdToUserIdMap ?st' h = Some w"
  proof (cases "w = u")
    case True
    then show ?thesis using assms(3)
      by (simp add: u2s_join_room s2u_join_room sockets_join_room)
  next
    case False
    have "(r', us) = (r, Set_add (members st r) u) \<or> (r', us) \<in> set (rooms st)"
      using entry set_Map_set [of "rooms st" r "Set_add (members st r) u"]
      by (auto simp: rooms_join_room)
    then have "\<exists>us0. (r', us0) \<in> set (rooms st) \<and> w \<in> set us0"
    proof
      assume "(r', us) = (r, Set_add (members st r) u)"
      then have "r' = r" and "w \<in> set (members st r)"
        using w False by (simp_all add: set_Set_add)
      then show ?thesis using in_members [of w st r] by simp
    next
      assume "(r', us) \<in> set (rooms st)"
      then show ?thesis using w by blast
    qed
    then obtain us0 where old: "(r', us0) \<in> set (rooms st)" "w \<in> set us0" by blast
    obtain h where h: "userIdToSocketIdMap st w = Some h" "h \<in> sockets st"
        "socketIdToUserIdMap st h = Some w"
      using members_ownedD [OF assms(1) old] by blast
    have "h \<noteq> s"
    proof
      assume "h = s"
      then have "w = ident s" using h(3) assms(2) by (simp add: identified_def)
      then show False using False assms(4) by simp
    qed
    then show ?thesis using h False
      by (simp add: u2s_join_room s2u_join_room sockets_join_room)
  qed
qed

lemma identified_join_room:
  "identified ident st \<Longrightarrow> u = ident s \<Longrightarrow> identified ident (fst (join_room s r u st))"
  by (simp add: identified_def s2u_join_room)

lemma owned_disconnect:
  assumes "members_owned st" and "identified ident st" and "\<forall>s. ident s \<noteq> []"
  shows "members_owned (fst (disconnect s (st\<lparr>sockets := sockets st - {s}\<rparr>)))"
proof (cases "socketIdToUserIdMap st s")
  case None
  let ?closed = "st\<lparr>sockets := sockets st - {s}\<rparr>"
  have skip: "disconnect s ?closed = (?closed, [])"
    using None by (simp add: disconnect_skip truthy_def)
  have "members_owned ?closed"
  proof (rule members_ownedI)
    fix r us w
    assume "(r, us) \<in> set (rooms ?closed)" and w: "w \<in> set us"
    then have entry: "(r, us) \<in> set (rooms st)" by simp
    obtain h where h: "userIdToSocketIdMap st w = Some h" "h \<in> sockets st"
        "socketIdToUserIdMap st h = Some w"
      using members_ownedD [OF assms(1) entry w] by blast
    then have "h \<noteq> s" using None by auto
    then show "\<exists>h. userIdToSocketIdMap ?closed w = Some h \<and> h \<in> sockets ?closed
          \<and> socketIdToUserIdMap ?closed h = Some w"
      using h by simp
  qed
  then show ?thesis using skip by simp
next
  case (Some u)
  let ?closed = "st\<lparr>sockets := sockets st - {s}\<rparr>"
  let ?st' = "?closed\<lparr>rooms := fst (leave_rooms u s (rooms ?closed)),
            userIdToSocketIdMap := (userIdToSocketIdMap ?closed)(u := None),
            socketIdToUserIdMap := (socketIdToUserIdMap ?closed)(s := None)\<rparr>"
  have "u = ident s" using Some assms(2) by (simp add: identified_def)
  then have "u \<noteq> []" using assms(3) by simp
  then have cleanup: "fst (disconnect s ?closed) = ?st'"
    using Some disconnect_cleanup [of ?closed s u] by simp
  have "members_owned ?st'"
  proof (rule members_ownedI)
    fix r us w
    assume "(r, us) \<in> set (rooms ?st')" and w: "w \<in> set us"
    then have "(r, us) \<in> set (fst (leave_rooms u s (rooms st)))" by simp
    then obtain us0 where entry: "(r, us0) \<in> set (rooms st)" and us: "us = removeAll u us0"
      by (auto simp: fst_leave_rooms)
    have w0: "w \<in> set us0" and "w \<noteq> u" using w us by auto
    obtain h where h: "userIdToSocketIdMap st w = Some h" "h \<in> sockets st"
        "socketIdToUserIdMap st h = Some w"
      using members_ownedD [OF assms(1) entry w0] by blast
    then have "h \<noteq> s" using Some \<open>w \<noteq> u\<close> by auto
    then show "\<exists>h. userIdToSocketIdMap ?st' w = Some h \<and> h \<in> sockets ?st'
          \<and> socketIdToUserIdMap ?st' h = Some w"
      using h \<open>w \<noteq> u\<close> by simp
  qed
  then show ?thesis using cleanup by simp
qed

lemma identified_disconnect:
  "identified ident st \<Longrightarrow> identified ident (fst (disconnect s st))"
  by (cases s st rule: disconnect_cases) (auto simp: identified_def)


lemma owned_step:
  assumes "joins_as ident e" and "\<forall>s. ident s \<noteq> []"
    and "members_owned st" and "identified ident st"
  shows "members_owned (fst (step e st)) \<and> identified ident (fst (step e st))"
proof (cases e)
  case (Connect s)
  have "members_owned (st\<lparr>sockets := insert s (sockets st)\<rparr>)"
  proof (rule members_ownedI)
    fix r us w
    assume "(r, us) \<in> set (rooms (st\<lparr>sockets := insert s (sockets st)\<rparr>))" and w: "w \<in> set us"
    then have entry: "(r, us) \<in> set (rooms st)" by simp
    obtain h where "userIdToSocketIdMap st w = Some h" "h \<in> sockets st"
        "socketIdToUserIdMap st h = Some w"
      using members_ownedD [OF assms(3) entry w] by blast
    then show "\<exists>h. userIdToSocketIdMap (st\<lparr>sockets := insert s (sockets st)\<rparr>) w = Some h
        \<and> h \<in> sockets (st\<lparr>sockets := insert s (sockets st)\<rparr>)
        \<and> socketIdToUserIdMap (st\<lparr>sockets := insert s (sockets st)\<rparr>) h = Some w"
      by simp
  qed
  moreover have "identified ident (st\<lparr>sockets := insert s (sockets st)\<rparr>)"
    using assms(4) by (simp add: identified_def)
  ultimately show ?thesis using Connect assms(3,4) by simp
next
  case (Join_room s r u)
  then have "u = ident s" using assms(1) by (simp add: joins_as_def)
  then show ?thesis
    using Join_room assms(3,4) owned_join_room [of st ident s u r] identified_join_room [of ident st u s r]
    by simp
next
  case (Signal_event s p)
  then show ?thesis using assms(3,4) by (simp add: fst_signal)
next
  case (Disconnect s)
  have "identified ident (st\<lparr>sockets := sockets st - {s}\<rparr>)"
    using assms(4) by (simp add: identified_def)
  then have "identified ident (fst (disconnect s (st\<lparr>sockets := sockets st - {s}\<rparr>)))"
    by (rule identified_disconnect)
  then show ?thesis
    using Disconnect assms(3,4) owned_disconnect [OF assms(3,4,2), of s] by simp
qed

lemma owned_invariant:
  assumes "\<forall>s. ident s \<noteq> []" and "list_all (joins_as ident) evs"
  shows "members_owned (state_after evs) \<and> identified ident (state_after evs)"
  using assms(2)
proof (induction evs rule: rev_induct)
  case Nil
  then show ?case by (simp add: state_after_Nil members_owned_def identified_def init_def)
next
  case (snoc e evs)
  then show ?case using owned_step [OF _ assms(1), of e "state_after evs"]
    by (simp add: state_after_snoc)
qed

text \<open>The definitions that evaluate a handler on a concrete state.\<close>

lemmas eval_defs = state_after_def init_def join_room_def disconnect_def signal_def Map_has_def
  Set_add_def Set_has_def Set_delete_def truthy_def members_def Let_def

section \<open>The claims\<close>

text \<open>
  C1, as amended. When socket \<open>h1\<close> is bound as the non-empty user \<open>u\<close> and another
  socket \<open>h2\<close> handles \<open>join-room\<close> with the same \<open>u\<close>, then \<open>u\<close> resolves to \<open>h2\<close>
  (the last bind wins). The disconnect of \<open>h1\<close> that follows deletes the forward entry of
  \<open>u\<close>, so \<open>u\<close> no longer resolves, deletes the reverse entry of \<open>h1\<close>, keeps the reverse
  entry \<open>h2 \<mapsto> u\<close>, and removes \<open>u\<close> from every room: the handler deletes by user id and
  does not compare the forward entry with the disconnecting socket.
\<close>

theorem rebinding_then_disconnect:
  assumes "socketIdToUserIdMap st h1 = Some u" and "u \<noteq> []" and "h1 \<noteq> h2"
  shows "userIdToSocketIdMap (fst (join_room h2 r u st)) u = Some h2
    \<and> userIdToSocketIdMap (fst (disconnect h1 (fst (join_room h2 r u st)))) u = None
    \<and> socketIdToUserIdMap (fst (disconnect h1 (fst (join_room h2 r u st)))) h1 = None
    \<and> socketIdToUserIdMap (fst (disconnect h1 (fst (join_room h2 r u st)))) h2 = Some u
    \<and> (\<forall>(r', us) \<in> set (rooms (fst (disconnect h1 (fst (join_room h2 r u st))))). u \<notin> set us)"
proof -
  let ?joined = "fst (join_room h2 r u st)"
  have still: "socketIdToUserIdMap ?joined h1 = Some u"
    using assms by (simp add: s2u_join_room)
  note cleanup = disconnect_cleanup [OF still assms(2)]
  have rooms: "\<forall>(r', us) \<in> set (rooms (fst (disconnect h1 ?joined))). u \<notin> set us"
    unfolding cleanup by (auto simp: fst_leave_rooms)
  show ?thesis
    using rooms assms(3) unfolding cleanup by (simp add: u2s_join_room s2u_join_room)
qed

theorem rebinding_then_disconnect_witness:
  "socketIdToUserIdMap (state_after [Connect ''H1'', Connect ''H2'',
       Join_room ''H1'' ''r1'' ''alice'']) ''H1'' = Some ''alice''
   \<and> ''alice'' \<noteq> [] \<and> ''H1'' \<noteq> ''H2''
   \<and> userIdToSocketIdMap (fst (join_room ''H2'' ''r1'' ''alice'' (state_after [Connect ''H1'',
       Connect ''H2'', Join_room ''H1'' ''r1'' ''alice'']))) ''alice'' = Some ''H2''
   \<and> userIdToSocketIdMap (fst (disconnect ''H1'' (fst (join_room ''H2'' ''r1'' ''alice''
       (state_after [Connect ''H1'', Connect ''H2'', Join_room ''H1'' ''r1'' ''alice'']))))) ''alice''
       = None
   \<and> rooms (fst (disconnect ''H1'' (fst (join_room ''H2'' ''r1'' ''alice''
       (state_after [Connect ''H1'', Connect ''H2'', Join_room ''H1'' ''r1'' ''alice''])))))
       = []"
proof -
  have bound: "socketIdToUserIdMap (state_after [Connect ''H1'', Connect ''H2'',
       Join_room ''H1'' ''r1'' ''alice'']) ''H1'' = Some ''alice''"
    by (simp add: eval_defs)
  have named: "''alice'' \<noteq> []" by simp
  have two: "''H1'' \<noteq> ''H2''" by simp
  show ?thesis
    using bound rebinding_then_disconnect [OF bound named two, of "''r1''"]
    by (simp add: eval_defs)
qed

text \<open>
  C1 as stated fails: after \<open>H1\<close> and \<open>H2\<close> both joined \<open>r1\<close> as \<open>alice\<close>, \<open>alice\<close> resolves
  to \<open>H2\<close>; after the disconnect of \<open>H1\<close>, with \<open>H2\<close> still open, \<open>alice\<close> does not
  resolve to \<open>H2\<close> any more and is no longer a member of \<open>r1\<close>.
\<close>

theorem rebinding_then_disconnect_counterexample:
  "userIdToSocketIdMap (state_after [Connect ''H1'', Connect ''H2'',
       Join_room ''H1'' ''r1'' ''alice'', Join_room ''H2'' ''r1'' ''alice''])
     ''alice'' = Some ''H2''
   \<and> ''H2'' \<in> sockets (state_after [Connect ''H1'', Connect ''H2'',
       Join_room ''H1'' ''r1'' ''alice'', Join_room ''H2'' ''r1'' ''alice'', Disconnect ''H1''])
   \<and> userIdToSocketIdMap (state_after [Connect ''H1'', Connect ''H2'',
       Join_room ''H1'' ''r1'' ''alice'', Join_room ''H2'' ''r1'' ''alice'', Disconnect ''H1''])
     ''alice'' \<noteq> Some ''H2''
   \<and> ''alice'' \<notin> set (members (state_after [Connect ''H1'', Connect ''H2'',
       Join_room ''H1'' ''r1'' ''alice'', Join_room ''H2'' ''r1'' ''alice'', Disconnect ''H1''])
     ''r1'')"
  by (simp add: eval_defs)

text \<open>
  C2, as amended. In every state reachable by a fair run, that is by events in which each
  \<open>join-room\<close> of a socket \<open>s\<close> as user \<open>u\<close> arrives when \<open>s\<close> is bound to no other user
  and \<open>u\<close> is bound to no other socket, the forward and the reverse map agree: a user id
  is bound to a handle exactly when that handle is bound back to that user id. A user id
  free again after a disconnect may be taken by another connection. The discipline is as
  weak as can be: from a state in which the maps agree, a \<open>join-room\<close> that is not fair
  makes them disagree (lemma \<open>unfair_join_disagrees\<close>).
\<close>

theorem registry_agrees_fair_joins:
  assumes "fair_run evs"
  shows "registry_agrees (state_after evs)"
proof -
  have "registry_agrees init" by (simp add: registry_agrees_def init_def)
  then show ?thesis
    using assms agrees_fair_from [of init evs] by (simp add: fair_run_def state_after_def)
qed

theorem registry_agrees_fair_joins_witness:
  "fair_run [Connect ''H1'', Join_room ''H1'' ''r1'' ''alice'', Join_room ''H1'' ''r2'' ''alice'',
       Disconnect ''H1'', Connect ''H2'', Join_room ''H2'' ''r1'' ''alice'']
   \<and> registry_agrees (state_after [Connect ''H1'', Join_room ''H1'' ''r1'' ''alice'',
       Join_room ''H1'' ''r2'' ''alice'', Disconnect ''H1'', Connect ''H2'',
       Join_room ''H2'' ''r1'' ''alice''])
   \<and> userIdToSocketIdMap (state_after [Connect ''H1'', Join_room ''H1'' ''r1'' ''alice'',
       Join_room ''H1'' ''r2'' ''alice'', Disconnect ''H1'', Connect ''H2'',
       Join_room ''H2'' ''r1'' ''alice'']) ''alice'' = Some ''H2''"
proof -
  have disciplined: "fair_run [Connect ''H1'', Join_room ''H1'' ''r1'' ''alice'',
       Join_room ''H1'' ''r2'' ''alice'', Disconnect ''H1'', Connect ''H2'',
       Join_room ''H2'' ''r1'' ''alice'']"
    by (simp add: fair_run_def fair_join_def eval_defs)
  show ?thesis
    using disciplined registry_agrees_fair_joins [OF disciplined]
    by (simp add: eval_defs)
qed

text \<open>
  C2 as stated fails in both directions. After \<open>H1\<close> and \<open>H2\<close> both joined as \<open>alice\<close>,
  the reverse map still binds \<open>H1\<close> to \<open>alice\<close> while \<open>alice\<close> is bound to \<open>H2\<close>. After
  \<open>H1\<close> joined as \<open>alice\<close> and then as \<open>bob\<close>, the forward map still binds \<open>alice\<close> to
  \<open>H1\<close> while \<open>H1\<close> is bound to \<open>bob\<close>.
\<close>

theorem registry_agrees_counterexample:
  "\<not> registry_agrees (state_after [Connect ''H1'', Connect ''H2'',
        Join_room ''H1'' ''r1'' ''alice'', Join_room ''H2'' ''r1'' ''alice''])
   \<and> \<not> registry_agrees (state_after [Connect ''H1'',
        Join_room ''H1'' ''r1'' ''alice'', Join_room ''H1'' ''r1'' ''bob''])"
proof -
  have reverse_stale: "socketIdToUserIdMap (state_after [Connect ''H1'', Connect ''H2'',
        Join_room ''H1'' ''r1'' ''alice'', Join_room ''H2'' ''r1'' ''alice'']) ''H1'' = Some ''alice''
      \<and> userIdToSocketIdMap (state_after [Connect ''H1'', Connect ''H2'',
        Join_room ''H1'' ''r1'' ''alice'', Join_room ''H2'' ''r1'' ''alice'']) ''alice'' = Some ''H2''"
    by (simp add: eval_defs)
  have forward_stale: "userIdToSocketIdMap (state_after [Connect ''H1'',
        Join_room ''H1'' ''r1'' ''alice'', Join_room ''H1'' ''r1'' ''bob'']) ''alice'' = Some ''H1''
      \<and> socketIdToUserIdMap (state_after [Connect ''H1'',
        Join_room ''H1'' ''r1'' ''alice'', Join_room ''H1'' ''r1'' ''bob'']) ''H1'' = Some ''bob''"
    by (simp add: eval_defs)
  have "''H1'' \<noteq> ''H2''" and "''alice'' \<noteq> ''bob''" by simp_all
  then show ?thesis
    using reverse_stale forward_stale unfolding registry_agrees_def
    by (metis option.inject)
qed

text \<open>
  C3, as amended. In every state reachable by events in which every connection gives one
  and the same non-empty user id in all its \<open>join-room\<close> events, every user id present in
  some room is bound in the forward map to an open connection.
\<close>

theorem members_live_single_identity:
  assumes "list_all (joins_as ident) evs" and "\<forall>s. ident s \<noteq> []"
  shows "members_live (state_after evs)"
proof -
  have "members_owned (state_after evs)" using owned_invariant [OF assms(2,1)] by simp
  then show ?thesis unfolding members_owned_def members_live_def by blast
qed

theorem members_live_single_identity_witness:
  "list_all (joins_as (\<lambda>s. ''user-'' @ s))
        [Connect ''H1'', Connect ''H2'', Join_room ''H1'' ''r1'' ''user-H1'',
         Join_room ''H2'' ''r1'' ''user-H2'', Join_room ''H1'' ''r2'' ''user-H1'',
         Disconnect ''H1'']
   \<and> (\<forall>s. ''user-'' @ s \<noteq> [])
   \<and> members_live (state_after
        [Connect ''H1'', Connect ''H2'', Join_room ''H1'' ''r1'' ''user-H1'',
         Join_room ''H2'' ''r1'' ''user-H2'', Join_room ''H1'' ''r2'' ''user-H1'',
         Disconnect ''H1''])
   \<and> rooms (state_after
        [Connect ''H1'', Connect ''H2'', Join_room ''H1'' ''r1'' ''user-H1'',
         Join_room ''H2'' ''r1'' ''user-H2'', Join_room ''H1'' ''r2'' ''user-H1'',
         Disconnect ''H1'']) = [(''r1'', [''user-H2''])]"
proof -
  have disciplined: "list_all (joins_as (\<lambda>s. ''user-'' @ s))
        [Connect ''H1'', Connect ''H2'', Join_room ''H1'' ''r1'' ''user-H1'',
         Join_room ''H2'' ''r1'' ''user-H2'', Join_room ''H1'' ''r2'' ''user-H1'',
         Disconnect ''H1'']"
    by (simp add: joins_as_def)
  have named: "\<forall>s. ''user-'' @ s \<noteq> []" by simp
  have rooms: "rooms (state_after
        [Connect ''H1'', Connect ''H2'', Join_room ''H1'' ''r1'' ''user-H1'',
         Join_room ''H2'' ''r1'' ''user-H2'', Join_room ''H1'' ''r2'' ''user-H1'',
         Disconnect ''H1'']) = [(''r1'', [''user-H2''])]"
    by (simp add: eval_defs)
  show ?thesis
    using disciplined rooms members_live_single_identity [OF disciplined named] by simp
qed

text \<open>
  C3 as stated fails: \<open>H1\<close> joins \<open>r1\<close> as \<open>alice\<close>, then as \<open>bob\<close>, and disconnects. The
  cleanup removes \<open>bob\<close> only; \<open>alice\<close> stays a member of \<open>r1\<close>, bound in the forward map
  to \<open>H1\<close>, which is closed. Likewise the empty user id (written \<open>[]\<close>) stays in its
  room, bound to the closed \<open>H2\<close>, the empty string being falsy in
  \<open>if (disconnectedUserId)\<close>.
\<close>

theorem members_live_counterexample:
  "\<not> members_live (state_after [Connect ''H1'', Join_room ''H1'' ''r1'' ''alice'',
        Join_room ''H1'' ''r1'' ''bob'', Disconnect ''H1''])
   \<and> \<not> members_live (state_after [Connect ''H2'', Join_room ''H2'' ''r1'' [],
        Disconnect ''H2''])"
proof -
  have stale: "rooms (state_after [Connect ''H1'', Join_room ''H1'' ''r1'' ''alice'',
        Join_room ''H1'' ''r1'' ''bob'', Disconnect ''H1'']) = [(''r1'', [''alice''])]
     \<and> userIdToSocketIdMap (state_after [Connect ''H1'', Join_room ''H1'' ''r1'' ''alice'',
        Join_room ''H1'' ''r1'' ''bob'', Disconnect ''H1'']) ''alice'' = Some ''H1''
     \<and> ''H1'' \<notin> sockets (state_after [Connect ''H1'', Join_room ''H1'' ''r1'' ''alice'',
        Join_room ''H1'' ''r1'' ''bob'', Disconnect ''H1''])"
    by (simp add: eval_defs)
  have unnamed: "rooms (state_after [Connect ''H2'', Join_room ''H2'' ''r1'' [],
        Disconnect ''H2'']) = [(''r1'', [[]])]
     \<and> userIdToSocketIdMap (state_after [Connect ''H2'', Join_room ''H2'' ''r1'' [],
        Disconnect ''H2'']) [] = Some ''H2''
     \<and> ''H2'' \<notin> sockets (state_after [Connect ''H2'', Join_room ''H2'' ''r1'' [],
        Disconnect ''H2''])"
    by (simp add: eval_defs)
  show ?thesis using stale unnamed by (simp add: members_live_def)
qed

text \<open>
  C4. After every event (connect, join-room, signal, disconnect), whatever the events before
  it, every room in the directory has a non-empty membership set: a disconnect that empties
  a room's set deletes the room in the same event, and a join never leaves an empty set.
\<close>

theorem no_empty_rooms_persist: "no_empty_rooms (state_after evs)"
proof (rule state_after_induct)
  show "no_empty_rooms init" by (simp add: no_empty_rooms_def init_def)
qed (rule no_empty_step)

theorem no_empty_rooms_persist_witness:
  "no_empty_rooms (state_after [Connect ''H1'', Join_room ''H1'' ''r1'' ''alice'', Connect ''H2'',
      Join_room ''H2'' ''r1'' ''bob'', Join_room ''H2'' ''r2'' ''bob'', Disconnect ''H2''])
   \<and> rooms (state_after [Connect ''H1'', Join_room ''H1'' ''r1'' ''alice'', Connect ''H2'',
      Join_room ''H2'' ''r1'' ''bob'', Join_room ''H2'' ''r2'' ''bob'', Disconnect ''H2''])
     = [(''r1'', [''alice''])]"
  using no_empty_rooms_persist [of "[Connect ''H1'', Join_room ''H1'' ''r1'' ''alice'', Connect ''H2'',
      Join_room ''H2'' ''r1'' ''bob'', Join_room ''H2'' ''r2'' ''bob'', Disconnect ''H2'']"]
  by (simp add: state_after_def init_def join_room_def disconnect_def Map_has_def Set_add_def
      Set_has_def Set_delete_def truthy_def Let_def)

text \<open>
  C5, as amended. In every reachable state, when an open socket \<open>s\<close> whose reverse-map
  entry is a non-empty user id \<open>u\<close> disconnects: afterwards no room contains \<open>u\<close>; every
  room whose only member was \<open>u\<close> is absent from the directory; every other room keeps
  its other members; and the handler's transport calls are one \<open>user-left\<close> with \<open>u\<close> for
  each room that contained \<open>u\<close>, in directory order, each addressed to the transport room
  without \<open>s\<close>. The user id cleaned up is the one of the socket's latest \<open>join-room\<close>.
\<close>

theorem disconnect_cleans_up:
  assumes "s \<in> sockets (state_after evs)"
    and "socketIdToUserIdMap (state_after evs) s = Some u" and "u \<noteq> []"
  shows "(\<forall>(r, us) \<in> set (rooms (fst (step (Disconnect s) (state_after evs)))). u \<notin> set us)
    \<and> (\<forall>r. set (members (state_after evs) r) = {u} \<longrightarrow>
          \<not> Map_has (rooms (fst (step (Disconnect s) (state_after evs)))) r)
    \<and> (\<forall>r. members (fst (step (Disconnect s) (state_after evs))) r
            = removeAll u (members (state_after evs) r))
    \<and> snd (step (Disconnect s) (state_after evs)) =
        map (\<lambda>r. Emit (Socket_to r s) (User_left u))
          (filter (\<lambda>r. u \<in> set (members (state_after evs) r)) (map fst (rooms (state_after evs))))
    \<and> (\<forall>r. recipients in_room (Socket_to r s) = in_room r - {s})"
proof -
  let ?st = "state_after evs"
  let ?closed = "?st\<lparr>sockets := sockets ?st - {s}\<rparr>"
  have d: "distinct (map fst (rooms ?closed))" using distinct_keys [of evs] by simp
  have m0: "\<And>r. members ?closed r = members ?st r" by (simp add: members_def)
  have step: "step (Disconnect s) ?st =
      (?closed\<lparr>rooms := fst (leave_rooms u s (rooms ?closed)),
         userIdToSocketIdMap := (userIdToSocketIdMap ?closed)(u := None),
         socketIdToUserIdMap := (socketIdToUserIdMap ?closed)(s := None)\<rparr>,
       snd (leave_rooms u s (rooms ?closed)))"
    using assms disconnect_cleanup [of ?closed s u] by simp
  have gone: "\<forall>(r, us) \<in> set (rooms (fst (step (Disconnect s) ?st))). u \<notin> set us"
    unfolding step by (auto simp: fst_leave_rooms)
  have mem: "\<And>r. members (fst (step (Disconnect s) ?st)) r = removeAll u (members ?st r)"
    unfolding step using members_leave_rooms [OF d] m0 by simp
  have sole: "\<And>r. set (members ?st r) = {u} \<Longrightarrow>
      \<not> Map_has (rooms (fst (step (Disconnect s) ?st))) r"
  proof -
    fix r assume only: "set (members ?st r) = {u}"
    then obtain us where us: "Map_get (rooms ?st) r = Some us" "set us = {u}"
      by (cases "Map_get (rooms ?st) r") (simp_all add: members_def)
    then have "removeAll u us = []" by (auto simp: removeAll_filter_not_eq filter_empty_conv)
    then show "\<not> Map_has (rooms (fst (step (Disconnect s) ?st))) r"
      unfolding step using us Map_get_leave_rooms [OF d, of u s r] by (simp add: Map_has_def)
  qed
  have calls: "snd (step (Disconnect s) ?st) =
        map (\<lambda>r. Emit (Socket_to r s) (User_left u))
          (filter (\<lambda>r. u \<in> set (members ?st r)) (map fst (rooms ?st)))"
    unfolding step using calls_leave_rooms [OF d, of u s] by (simp add: members_def)
  show ?thesis using gone mem sole calls by simp
qed

theorem disconnect_cleans_up_witness:
  "''A'' \<in> sockets (state_after [Connect ''A'', Connect ''B'', Join_room ''A'' ''r1'' ''alice'',
        Join_room ''B'' ''r1'' ''bob'', Join_room ''A'' ''r2'' ''alice''])
   \<and> socketIdToUserIdMap (state_after [Connect ''A'', Connect ''B'',
        Join_room ''A'' ''r1'' ''alice'', Join_room ''B'' ''r1'' ''bob'',
        Join_room ''A'' ''r2'' ''alice'']) ''A'' = Some ''alice''
   \<and> ''alice'' \<noteq> []
   \<and> rooms (fst (step (Disconnect ''A'') (state_after [Connect ''A'', Connect ''B'',
        Join_room ''A'' ''r1'' ''alice'', Join_room ''B'' ''r1'' ''bob'',
        Join_room ''A'' ''r2'' ''alice'']))) = [(''r1'', [''bob''])]
   \<and> snd (step (Disconnect ''A'') (state_after [Connect ''A'', Connect ''B'',
        Join_room ''A'' ''r1'' ''alice'', Join_room ''B'' ''r1'' ''bob'',
        Join_room ''A'' ''r2'' ''alice''])) =
       [Emit (Socket_to ''r1'' ''A'') (User_left ''alice''),
        Emit (Socket_to ''r2'' ''A'') (User_left ''alice'')]"
proof -
  have opened: "''A'' \<in> sockets (state_after [Connect ''A'', Connect ''B'',
        Join_room ''A'' ''r1'' ''alice'', Join_room ''B'' ''r1'' ''bob'',
        Join_room ''A'' ''r2'' ''alice''])"
    by (simp add: eval_defs)
  have bound: "socketIdToUserIdMap (state_after [Connect ''A'', Connect ''B'',
        Join_room ''A'' ''r1'' ''alice'', Join_room ''B'' ''r1'' ''bob'',
        Join_room ''A'' ''r2'' ''alice'']) ''A'' = Some ''alice''"
    by (simp add: eval_defs)
  have named: "''alice'' \<noteq> []" by simp
  show ?thesis
    using opened bound disconnect_cleans_up [OF opened bound named]
    by (simp add: eval_defs)
qed

text \<open>
  C5 as stated fails. A socket that joined \<open>r1\<close> as \<open>alice\<close> and then as \<open>bob\<close> leaves
  \<open>alice\<close> in \<open>r1\<close> when it disconnects, since only the latest user id of the socket is
  cleaned up; and a socket that joined with the empty user id leaves it in the room, the
  empty string being falsy in \<open>if (disconnectedUserId)\<close>.
\<close>

theorem disconnect_cleans_up_counterexample:
  "''H1'' \<notin> sockets (state_after [Connect ''H1'', Join_room ''H1'' ''r1'' ''alice'',
        Join_room ''H1'' ''r1'' ''bob'', Disconnect ''H1''])
   \<and> ''alice'' \<in> set (members (state_after [Connect ''H1'', Join_room ''H1'' ''r1'' ''alice'',
        Join_room ''H1'' ''r1'' ''bob'', Disconnect ''H1'']) ''r1'')
   \<and> ''H2'' \<notin> sockets (state_after [Connect ''H2'', Join_room ''H2'' ''r1'' '''',
        Disconnect ''H2''])
   \<and> '''' \<in> set (members (state_after [Connect ''H2'', Join_room ''H2'' ''r1'' '''',
        Disconnect ''H2'']) ''r1'')"
  by (simp add: eval_defs)




text \<open>
  C7. When the payload's \<open>targetUserId\<close> has no binding in the forward map, the signal
  handler returns normally, makes no transport call at all (no delivery, no error message
  to the sender) and leaves the registry and the room directory unchanged.
\<close>

theorem signal_unresolved_dropped:
  assumes "userIdToSocketIdMap st (targetUserId p) = None"
  shows "signal s p st = (st, [])"
  using assms by (simp add: signal_def truthy_def)

theorem signal_unresolved_dropped_witness:
  "userIdToSocketIdMap
     (state_after [Connect ''A'', Join_room ''A'' ''r1'' ''alice''])
     (targetUserId \<lparr>type = Candidate, sdp = None, candidate = Some None,
        senderUserId = ''alice'', targetUserId = ''carol'', roomId = ''r1''\<rparr>) = None
   \<and> signal ''A'' \<lparr>type = Candidate, sdp = None, candidate = Some None,
        senderUserId = ''alice'', targetUserId = ''carol'', roomId = ''r1''\<rparr>
       (state_after [Connect ''A'', Join_room ''A'' ''r1'' ''alice'']) =
     (state_after [Connect ''A'', Join_room ''A'' ''r1'' ''alice''], [])"
proof -
  have unbound: "userIdToSocketIdMap
     (state_after [Connect ''A'', Join_room ''A'' ''r1'' ''alice''])
     (targetUserId \<lparr>type = Candidate, sdp = None, candidate = Some None,
        senderUserId = ''alice'', targetUserId = ''carol'', roomId = ''r1''\<rparr>) = None"
    by (simp add: eval_defs)
  show ?thesis
    using unbound signal_unresolved_dropped [OF unbound, of "''A''"] by simp
qed

text \<open>
  C8. A \<open>join-room\<close> of room \<open>r\<close> as user \<open>u\<close> on socket \<open>s\<close> makes three transport
  calls: the socket joins the transport room \<open>r\<close>; \<open>existing-users\<close> is emitted to
  \<open>s\<close> alone, and its list is the members of \<open>r\<close> other than \<open>u\<close> (in insertion order,
  never \<open>u\<close> itself); \<open>user-joined\<close> with \<open>u\<close> is emitted to the transport room \<open>r\<close>
  without \<open>s\<close>, so it never reaches the joiner, although \<open>u\<close> is already a member of
  \<open>r\<close> in the room directory at that point.
\<close>

theorem join_room_emissions:
  "snd (join_room s r u st) =
     [Join s r,
      Emit (Socket s) (Existing_users (filter (\<lambda>id. id \<noteq> u) (members st r))),
      Emit (Socket_to r s) (User_joined u)]
   \<and> set (filter (\<lambda>id. id \<noteq> u) (members st r)) = set (members (fst (join_room s r u st)) r) - {u}
   \<and> u \<in> set (members (fst (join_room s r u st)) r)
   \<and> recipients in_room (Socket s) = {s}
   \<and> recipients in_room (Socket_to r s) = in_room r - {s}
   \<and> s \<notin> recipients in_room (Socket_to r s)"
proof -
  have calls: "snd (join_room s r u st) =
     [Join s r,
      Emit (Socket s) (Existing_users (filter (\<lambda>id. id \<noteq> u) (members st r))),
      Emit (Socket_to r s) (User_joined u)]"
    by (simp add: join_room_eq filter_Set_add)
  have after: "set (members (fst (join_room s r u st)) r) = insert u (set (members st r))"
    by (simp add: members_join_room set_Set_add)
  have others: "set (filter (\<lambda>id. id \<noteq> u) (members st r)) = insert u (set (members st r)) - {u}"
    by auto
  show ?thesis
    unfolding after using calls others by simp
qed

theorem join_room_emissions_witness:
  "snd (join_room ''B'' ''r1'' ''bob''
        (state_after [Connect ''A'', Connect ''B'', Join_room ''A'' ''r1'' ''alice''])) =
     [Join ''B'' ''r1'',
      Emit (Socket ''B'') (Existing_users [''alice'']),
      Emit (Socket_to ''r1'' ''B'') (User_joined ''bob'')]
   \<and> ''B'' \<notin> recipients (\<lambda>r. {''A'', ''B''}) (Socket_to ''r1'' ''B'')"
  using join_room_emissions [of "''B''" "''r1''" "''bob''"
      "state_after [Connect ''A'', Connect ''B'', Join_room ''A'' ''r1'' ''alice'']"
      "\<lambda>r. {''A'', ''B''}"]
  by (simp add: eval_defs)

text \<open>
  C9. Handling \<open>join-room\<close> with the same room and user twice in a row on the same
  socket gives the same state as handling it once (the same room directory, the same
  membership set of the room, the same registry), and the same transport calls.
\<close>

theorem join_room_twice:
  "join_room s r u (fst (join_room s r u st)) = join_room s r u st"
  by (simp add: join_room_eq [of s r u "fst (join_room s r u st)"] members_join_room
      rooms_join_room u2s_join_room s2u_join_room Set_add_again Map_set_twice)
     (simp add: join_room_eq filter_Set_add)

theorem join_room_twice_witness:
  "rooms (fst (join_room ''A'' ''r1'' ''alice'' (fst (join_room ''A'' ''r1'' ''alice'' init))))
     = [(''r1'', [''alice''])]
   \<and> rooms (fst (join_room ''A'' ''r1'' ''alice'' init)) = [(''r1'', [''alice''])]"
  using join_room_twice [of "''A''" "''r1''" "''alice''" init]
  by (simp add: eval_defs)

text \<open>
  C10. When the forward map binds user \<open>v\<close> to the handle \<open>h\<close> and \<open>h\<close> handles
  \<open>join-room\<close> with another user id \<open>u\<close>, the entry of \<open>v\<close> stays: \<open>v\<close> still resolves
  to \<open>h\<close>, and a signal for \<open>v\<close> is still addressed to \<open>h\<close>. The join changes only the
  forward entry of \<open>u\<close> and the reverse entry of \<open>h\<close>, which become \<open>u \<mapsto> h\<close> and
  \<open>h \<mapsto> u\<close>.
\<close>

theorem rebinding_keeps_stale_entry:
  assumes "userIdToSocketIdMap st v = Some h" and "v \<noteq> u"
  shows "userIdToSocketIdMap (fst (join_room h r u st)) v = Some h
    \<and> (\<forall>w. w \<noteq> u \<longrightarrow>
          userIdToSocketIdMap (fst (join_room h r u st)) w = userIdToSocketIdMap st w)
    \<and> (\<forall>t. t \<noteq> h \<longrightarrow>
          socketIdToUserIdMap (fst (join_room h r u st)) t = socketIdToUserIdMap st t)
    \<and> userIdToSocketIdMap (fst (join_room h r u st)) u = Some h
    \<and> socketIdToUserIdMap (fst (join_room h r u st)) h = Some u
    \<and> (h \<noteq> [] \<longrightarrow> targetUserId p = v \<longrightarrow>
         snd (signal s p (fst (join_room h r u st))) = [Emit (Io_to h) (Signal p)])"
  using assms by (simp add: u2s_join_room s2u_join_room signal_resolved)

theorem rebinding_keeps_stale_entry_witness:
  "userIdToSocketIdMap (fst (join_room ''H'' ''r1'' ''v'' init)) ''v'' = Some ''H''
   \<and> ''v'' \<noteq> ''u''
   \<and> userIdToSocketIdMap
       (fst (join_room ''H'' ''r1'' ''u'' (fst (join_room ''H'' ''r1'' ''v'' init)))) ''v'' = Some ''H''
   \<and> socketIdToUserIdMap
       (fst (join_room ''H'' ''r1'' ''u'' (fst (join_room ''H'' ''r1'' ''v'' init)))) ''H'' = Some ''u''"
proof -
  have bound: "userIdToSocketIdMap (fst (join_room ''H'' ''r1'' ''v'' init)) ''v'' = Some ''H''"
    by (simp add: eval_defs)
  have diff: "''v'' \<noteq> ''u''" by simp
  show ?thesis
    using bound diff rebinding_keeps_stale_entry [OF bound diff, of "''r1''"] by simp
qed

end
